theory Spec2Isabelle
  imports Main "HOL-Library.AList"
begin

section \<open>Key normalizer (src/utils.ts)\<close>

text \<open>
  \<^verbatim>\<open>String.prototype.replace(pattern, replacement)\<close> with a one-character string pattern and a
  one-character replacement without dollar sign: only the first occurrence of the pattern is
  replaced, the rest of the string is copied.
\<close>

fun replace_first :: "char \<Rightarrow> char \<Rightarrow> string \<Rightarrow> string" where
  "replace_first a b [] = []"
| "replace_first a b (c # cs) = (if c = a then b # cs else c # replace_first a b cs)"

text \<open>\<^verbatim>\<open>String.prototype.includes\<close> with a one-character argument.\<close>

definition includes_char :: "string \<Rightarrow> char \<Rightarrow> bool" where
  "includes_char s c = (c \<in> set s)"

text \<open>
  \<^verbatim>\<open>normalizeKey(key, namespace?)\<close>, lines 148 to 163. The optional namespace is an
  \<open>option\<close>; the source discards it with \<^verbatim>\<open>void namespace\<close>.
\<close>

definition normalizeKey :: "string \<Rightarrow> string option \<Rightarrow> string" where
  "normalizeKey key namespace =
     (let normalizedKey = key in
      if includes_char normalizedKey CHR '':''
      then replace_first CHR '':'' CHR ''.'' normalizedKey
      else normalizedKey)"

text \<open>
  \<^verbatim>\<open>extractBaseKey\<close>, lines 177 to 195. The regular expression
  \<^verbatim>\<open>/_(zero|one|two|few|many|other|plural)$/\<close> has no flags: the dollar matches at the end of
  the input only, and \<^verbatim>\<open>replace\<close> rewrites the leftmost match. A match that starts at some
  position therefore covers the whole rest of the string, which must be an underscore followed
  by one of the seven words.
\<close>

definition plural_words :: "string list" where
  "plural_words = [''zero'', ''one'', ''two'', ''few'', ''many'', ''other'', ''plural'']"

definition plural_match_here :: "string \<Rightarrow> bool" where
  "plural_match_here rest = (rest \<in> set (map ((#) CHR ''_'') plural_words))"

text \<open>The scan over start positions, left to right; the match is replaced by the empty string.\<close>

fun replace_plural_suffix :: "string \<Rightarrow> string" where
  "replace_plural_suffix [] = []"
| "replace_plural_suffix (c # cs) =
     (if plural_match_here (c # cs) then [] else c # replace_plural_suffix cs)"

text \<open>
  After the replacement the source looks for a last underscore and a short lower-case suffix
  (lines 184 to 192), but the body of that conditional holds only comments: nothing is assigned,
  and \<^verbatim>\<open>baseKey\<close> is returned as the replacement left it.
\<close>

definition extractBaseKey :: "string \<Rightarrow> string" where
  "extractBaseKey key = (let baseKey = replace_plural_suffix key in baseKey)"

section \<open>Tracking store (src/types.ts, src/utils.ts)\<close>

text \<open>
  \<^verbatim>\<open>MemoryMapEntry\<close> of types.ts: a set of ids, the constant tag \<^verbatim>\<open>'text'\<close> and an optional
  metadata object whose three fields are optional too. Timestamps are the integer
  milliseconds of \<^verbatim>\<open>Date.now()\<close>.
\<close>

datatype EntryType = Text

record Metadata =
  namespace :: "string option"
  language :: "string option"
  trackedAt :: "int option"

record MemoryMapEntry =
  ids :: "string set"
  type :: EntryType
  metadata :: "Metadata option"

text \<open>
  \<^verbatim>\<open>MemoryMap = Map<string, MemoryMapEntry>\<close>. A JavaScript Map iterates in insertion order
  and \<^verbatim>\<open>cleanupMemoryMap\<close> reads that order, so the map is an association list:
  \<^verbatim>\<open>get\<close> is \<^const>\<open>map_of\<close>, \<^verbatim>\<open>set\<close> is \<^const>\<open>AList.update\<close> (an existing key keeps its
  place, a new key goes to the end), \<^verbatim>\<open>delete\<close> is \<^const>\<open>AList.delete\<close>. The keys of a Map
  are distinct.
\<close>

type_synonym MemoryMap = "(string \<times> MemoryMapEntry) list"

text \<open>
  \<^verbatim>\<open>ContentStorageWindow\<close>: the window object with its optional \<^verbatim>\<open>memoryMap\<close> property. The
  global state is the window, or nothing when \<^verbatim>\<open>isBrowser()\<close> is false.
\<close>

record ContentStorageWindow =
  memoryMap :: "MemoryMap option"

type_synonym Global = "ContentStorageWindow option"

definition getContentStorageWindow :: "Global \<Rightarrow> ContentStorageWindow option" where
  "getContentStorageWindow g = g"

text \<open>\<^verbatim>\<open>initializeMemoryMap\<close>, lines 54 to 63: the returned map and the new global state.\<close>

definition initializeMemoryMap :: "Global \<Rightarrow> MemoryMap option \<times> Global" where
  "initializeMemoryMap g =
     (case getContentStorageWindow g of
        None \<Rightarrow> (None, g)
      | Some win \<Rightarrow>
          (case memoryMap win of
             None \<Rightarrow> (Some [], Some (win\<lparr>memoryMap := Some []\<rparr>))
           | Some m \<Rightarrow> (Some m, g)))"

text \<open>\<^verbatim>\<open>getMemoryMap\<close>, lines 134 to 137: \<^verbatim>\<open>win?.memoryMap || null\<close>; a Map object is truthy.\<close>

definition getMemoryMap :: "Global \<Rightarrow> MemoryMap option" where
  "getMemoryMap g =
     (case getContentStorageWindow g of None \<Rightarrow> None | Some win \<Rightarrow> memoryMap win)"

text \<open>
  The Map is held by reference: a \<^verbatim>\<open>set\<close> or \<^verbatim>\<open>delete\<close> on the object that \<^verbatim>\<open>getMemoryMap\<close>
  returned changes \<^verbatim>\<open>window.memoryMap\<close>. \<open>putMemoryMap\<close> writes the changed map back.
\<close>

definition putMemoryMap :: "MemoryMap \<Rightarrow> Global \<Rightarrow> Global" where
  "putMemoryMap m g = map_option (\<lambda>win. win\<lparr>memoryMap := Some m\<rparr>) g"

text \<open>
  \<^verbatim>\<open>trackTranslation\<close>, lines 221 to 259. \<open>now\<close> is the reading of \<^verbatim>\<open>Date.now()\<close>; the
  \<^verbatim>\<open>debug\<close> flag only writes to the console and is left out.
\<close>

definition trackTranslation ::
  "string \<Rightarrow> string \<Rightarrow> string option \<Rightarrow> string option \<Rightarrow> int \<Rightarrow> Global \<Rightarrow> Global" where
  "trackTranslation translationValue translationKey ns lang now g =
     (case getMemoryMap g of
        None \<Rightarrow> g
      | Some m \<Rightarrow>
          (let normalizedKey = normalizeKey translationKey ns;
               existingEntry = map_of m translationValue;
               idSet = (case existingEntry of Some e \<Rightarrow> ids e | None \<Rightarrow> {});
               idSet = insert normalizedKey idSet;
               entry = \<lparr>ids = idSet, type = Text,
                        metadata = Some \<lparr>namespace = ns, language = lang, trackedAt = Some now\<rparr>\<rparr>
           in putMemoryMap (AList.update translationValue entry m) g))"

text \<open>
  \<^verbatim>\<open>cleanupMemoryMap\<close>, lines 267 to 288. The timestamp of an entry is
  \<^verbatim>\<open>value.metadata?.trackedAt || 0\<close>.
\<close>

definition timestamp_of :: "MemoryMapEntry \<Rightarrow> int" where
  "timestamp_of v =
     (case metadata v of
        None \<Rightarrow> 0
      | Some md \<Rightarrow> (case trackedAt md of None \<Rightarrow> 0 | Some t \<Rightarrow> if t = 0 then 0 else t))"

text \<open>
  The array \<^verbatim>\<open>entries\<close> after \<^verbatim>\<open>entries.sort((a, b) => a.timestamp - b.timestamp)\<close>: triples
  of key, value and timestamp in ascending order of timestamp. The sort of an array is stable;
  so is \<^const>\<open>sort_key\<close>.
\<close>

definition sorted_entries :: "MemoryMap \<Rightarrow> (string \<times> MemoryMapEntry \<times> int) list" where
  "sorted_entries m =
     sort_key (\<lambda>(key, v, timestamp). timestamp) (map (\<lambda>(key, v). (key, v, timestamp_of v)) m)"

text \<open>
  The loop \<^verbatim>\<open>for (let i = 0; i < toRemove; i++) memoryMap.delete(entries[i].key)\<close>, with the
  number of rounds still to run as third argument. Past the end of the array
  \<^verbatim>\<open>entries[i]\<close> is undefined and reading its \<^verbatim>\<open>key\<close> throws a TypeError; the map keeps the
  deletions done so far.
\<close>

datatype error = TypeError

fun cleanup_loop ::
  "(string \<times> MemoryMapEntry \<times> int) list \<Rightarrow> nat \<Rightarrow> nat \<Rightarrow> MemoryMap \<Rightarrow> (error \<times> MemoryMap) + MemoryMap" where
  "cleanup_loop entries i 0 m = Inr m"
| "cleanup_loop entries i (Suc n) m =
     (if i < length entries
      then cleanup_loop entries (Suc i) n (AList.delete (fst (entries ! i)) m)
      else Inl (TypeError, m))"

definition cleanupMemoryMap :: "int \<Rightarrow> Global \<Rightarrow> (error \<times> Global) + Global" where
  "cleanupMemoryMap maxSize g =
     (case getMemoryMap g of
        None \<Rightarrow> Inr g
      | Some m \<Rightarrow>
          if int (length m) \<le> maxSize then Inr g
          else
            (let entries = sorted_entries m;
                 toRemove = int (length m) - maxSize
             in case cleanup_loop entries 0 (nat toRemove) m of
                  Inl (e, m') \<Rightarrow> Inl (e, putMemoryMap m' g)
                | Inr m' \<Rightarrow> Inr (putMemoryMap m' g)))"

text \<open>
  The keys of the first \<^verbatim>\<open>toRemove\<close> entries of the sorted array: what the loop deletes when
  the array is long enough.
\<close>

definition evicted :: "int \<Rightarrow> MemoryMap \<Rightarrow> string set" where
  "evicted maxSize m = fst ` set (take (nat (int (length m) - maxSize)) (sorted_entries m))"

section \<open>Bulk loading (src/utils.ts, src/plugin.ts)\<close>

text \<open>
  The values a parsed translation payload can hold. An object is the list of its own
  enumerable properties in the order in which \<^verbatim>\<open>for (const key in obj)\<close> visits them; the
  \<^verbatim>\<open>hasOwnProperty\<close> test of the loop drops inherited ones.
\<close>

datatype JsValue =
    JString string
  | JNumber int
  | JBool bool
  | JNull
  | JUndefined
  | JArray "JsValue list"
  | JObject "(string \<times> JsValue) list"

text \<open>
  The constant \<^verbatim>\<open>fullKey\<close> of the loop body, line 307: prefix, dot and key when \<^verbatim>\<open>prefix\<close> is
  truthy, the key alone otherwise. Of all strings only the empty one is falsy.
\<close>

definition fullKey :: "string \<Rightarrow> string \<Rightarrow> string" where
  "fullKey prefix key = (if prefix \<noteq> [] then prefix @ ''.'' @ key else key)"

text \<open>
  \<^verbatim>\<open>flattenTranslations(obj, prefix)\<close>, lines 297 to 318, on the properties of \<^verbatim>\<open>obj\<close>. A string
  value is pushed with its full key; an object that is neither null nor an array is flattened
  under the full key and its results are pushed; any other value is passed over.
\<close>

function (sequential) flattenTranslations ::
  "(string \<times> JsValue) list \<Rightarrow> string \<Rightarrow> (string \<times> string) list" where
  "flattenTranslations [] prefix = []"
| "flattenTranslations ((key, JString s) # rest) prefix =
     (fullKey prefix key, s) # flattenTranslations rest prefix"
| "flattenTranslations ((key, JObject props) # rest) prefix =
     flattenTranslations props (fullKey prefix key) @ flattenTranslations rest prefix"
| "flattenTranslations ((key, _) # rest) prefix = flattenTranslations rest prefix"
  by pat_completeness auto
termination
  by (relation "measure (\<lambda>(obj, prefix). size (JObject obj))") auto

text \<open>
  \<^verbatim>\<open>ContentstorageBackend.trackTranslations\<close>, plugin.ts lines 337 to 366: every flattened
  pair with a non-empty value is tracked, without namespace and with the language of the load.
  Each call of \<^verbatim>\<open>trackTranslation\<close> reads \<^verbatim>\<open>Date.now()\<close> once: \<open>clock i\<close> is the reading of
  call number \<open>i\<close>.
\<close>

fun trackTranslations_loop ::
  "(string \<times> string) list \<Rightarrow> string \<Rightarrow> (nat \<Rightarrow> int) \<Rightarrow> nat \<Rightarrow> Global \<Rightarrow> Global" where
  "trackTranslations_loop [] lang clock i g = g"
| "trackTranslations_loop ((key, v) # rest) lang clock i g =
     (if v = [] then trackTranslations_loop rest lang clock i g
      else trackTranslations_loop rest lang clock (Suc i)
             (trackTranslation v key None (Some lang) (clock i) g))"

definition trackTranslations ::
  "(string \<times> JsValue) list \<Rightarrow> string \<Rightarrow> (nat \<Rightarrow> int) \<Rightarrow> Global \<Rightarrow> Global" where
  "trackTranslations translations lang clock g =
     (if g = None then g
      else trackTranslations_loop (flattenTranslations translations []) lang clock 0 g)"

text \<open>
  The reading of the flatten contract: the string leaves of the tree in depth-first order,
  each with the list of keys on the way to it, and the path segments joined with dots
  (\<^verbatim>\<open>Array.prototype.join\<close>).
\<close>

fun dot_join :: "string list \<Rightarrow> string" where
  "dot_join [] = []"
| "dot_join [seg] = seg"
| "dot_join (seg # segs) = seg @ ''.'' @ dot_join segs"

function (sequential) string_leaves ::
  "(string \<times> JsValue) list \<Rightarrow> (string list \<times> string) list" where
  "string_leaves [] = []"
| "string_leaves ((key, JString s) # rest) = ([key], s) # string_leaves rest"
| "string_leaves ((key, JObject props) # rest) =
     map (\<lambda>(path, s). (key # path, s)) (string_leaves props) @ string_leaves rest"
| "string_leaves ((key, _) # rest) = string_leaves rest"
  by pat_completeness auto
termination
  by (relation "measure (\<lambda>obj. size (JObject obj))") auto

definition flatten_spec :: "(string \<times> JsValue) list \<Rightarrow> (string \<times> string) list" where
  "flatten_spec obj = map (\<lambda>(path, s). (dot_join path, s)) (string_leaves obj)"

section \<open>Tracking from the post-processor (src/post-processor.ts)\<close>

text \<open>
  The call of \<^verbatim>\<open>ContentstorageLiveEditorPostProcessor.process\<close>, post-processor.ts lines 94 to
  101, which the second suite of the utils tests repeats: \<^verbatim>\<open>trackTranslation\<close> with six
  arguments, the value, the key, the namespace, the language, the debug flag and the variables
  of the call site, absent or a mapping from names to values. \<^verbatim>\<open>trackTranslation\<close> declares five
  parameters and does not read \<^verbatim>\<open>arguments\<close>, so the sixth argument reaches nothing in its
  body; the debug flag only writes to the console.
\<close>

definition trackTranslation_call ::
  "string \<Rightarrow> string \<Rightarrow> string option \<Rightarrow> string option \<Rightarrow> bool
     \<Rightarrow> (string \<times> JsValue) list option \<Rightarrow> int \<Rightarrow> Global \<Rightarrow> Global" where
  "trackTranslation_call translationValue translationKey ns lang debug variables now g =
     trackTranslation translationValue translationKey ns lang now g"

section \<open>Properties of the normalizer\<close>

lemma replace_first_absent: "a \<notin> set s \<Longrightarrow> replace_first a b s = s"
  by (induction s) auto

lemma replace_first_split:
  "a \<notin> set pre \<Longrightarrow> replace_first a b (pre @ a # post) = pre @ b # post"
  by (induction pre) auto

lemma normalizeKey_no_colon: "CHR '':'' \<notin> set k \<Longrightarrow> normalizeKey k ns = k"
  by (simp add: normalizeKey_def includes_char_def)

lemma normalizeKey_first_colon:
  "CHR '':'' \<notin> set pre \<Longrightarrow> normalizeKey (pre @ CHR '':'' # post) ns = pre @ CHR ''.'' # post"
  by (simp add: normalizeKey_def includes_char_def replace_first_split)

lemma normalizeKey_replace: "normalizeKey k ns = replace_first CHR '':'' CHR ''.'' k"
  by (simp add: normalizeKey_def includes_char_def replace_first_absent)

text \<open>
  Claim C8. The result of \<^verbatim>\<open>normalizeKey\<close> does not depend on the namespace argument: any
  two namespace arguments, absent or present, give the same key, and the result has the length
  of the key, so no prefix is ever put in front of it.
\<close>

theorem normalizeKey_namespace_independent:
  "normalizeKey k ns1 = normalizeKey k ns2 \<and> length (normalizeKey k ns1) = length k"
proof
  show "normalizeKey k ns1 = normalizeKey k ns2"
    by (simp add: normalizeKey_def)
  have "length (replace_first a b s) = length s" for a b :: char and s
    by (induction s) auto
  then show "length (normalizeKey k ns1) = length k"
    by (simp add: normalizeKey_replace)
qed

text \<open>
  Claim C6. A key that contains a colon is split at its first colon, which has no colon before
  it: that colon becomes a dot and every other character, later colons included, stays.
  A key without a colon is returned as it is.
\<close>

theorem normalizeKey_colon_to_dot:
  "(CHR '':'' \<notin> set pre \<longrightarrow>
      normalizeKey (pre @ CHR '':'' # post) ns = pre @ CHR ''.'' # post)
   \<and> (CHR '':'' \<notin> set k \<longrightarrow> normalizeKey k ns = k)"
  by (simp add: normalizeKey_no_colon normalizeKey_first_colon)

theorem normalizeKey_colon_to_dot_witness:
  "normalizeKey ''a:b:c'' None = ''a.b:c'' \<and> normalizeKey ''common:welcome'' None = ''common.welcome''
   \<and> normalizeKey ''welcome'' (Some ''common'') = ''welcome''"
  using normalizeKey_colon_to_dot [of "''a''" "''b:c''" None "''welcome''"]
    normalizeKey_colon_to_dot [of "''common''" "''welcome''" None "''welcome''" ]
    normalizeKey_colon_to_dot [of "''a''" "''b:c''" "Some ''common''" "''welcome''"]
  by simp

section \<open>Base keys and repeated normalization\<close>

lemma plural_word_no_underscore: "w \<in> set plural_words \<Longrightarrow> CHR ''_'' \<notin> set w"
  by (auto simp: plural_words_def)

lemma plural_match_here_iff:
  "plural_match_here rest = (\<exists>w. w \<in> set plural_words \<and> rest = CHR ''_'' # w)"
  by (auto simp: plural_match_here_def)

lemma replace_plural_suffix_strip:
  "w \<in> set plural_words \<Longrightarrow> replace_plural_suffix (base @ CHR ''_'' # w) = base"
proof (induction base)
  case Nil
  then show ?case by (simp add: plural_match_here_iff)
next
  case (Cons c base)
  have "\<not> plural_match_here (c # base @ CHR ''_'' # w)"
  proof
    assume "plural_match_here (c # base @ CHR ''_'' # w)"
    then obtain w' where w': "w' \<in> set plural_words" "c # base @ CHR ''_'' # w = CHR ''_'' # w'"
      by (auto simp: plural_match_here_iff)
    then have "CHR ''_'' \<in> set w'" by auto
    with w'(1) show False using plural_word_no_underscore by blast
  qed
  with Cons show ?case by simp
qed

lemma replace_plural_suffix_keep:
  "(\<And>b w. w \<in> set plural_words \<Longrightarrow> key \<noteq> b @ CHR ''_'' # w) \<Longrightarrow> replace_plural_suffix key = key"
proof (induction key)
  case Nil
  then show ?case by simp
next
  case (Cons c key)
  have no: "\<not> plural_match_here (c # key)"
    using Cons.prems [of _ "[]"] by (auto simp: plural_match_here_iff)
  have "replace_plural_suffix key = key"
  proof (rule Cons.IH)
    fix b w assume "w \<in> set plural_words"
    then show "key \<noteq> b @ CHR ''_'' # w" using Cons.prems [of w "c # b"] by auto
  qed
  with no show ?case by simp
qed

text \<open>
  Claim C9. A key that ends in an underscore followed by one of the seven plural words loses
  exactly that suffix. Every other key, one with another suffix after its last underscore
  included (\<^verbatim>\<open>hello_world\<close>), is returned unchanged.
\<close>

theorem extractBaseKey_plural_suffix:
  "(w \<in> set plural_words \<longrightarrow> extractBaseKey (base @ CHR ''_'' # w) = base)
   \<and> ((\<forall>b w. w \<in> set plural_words \<longrightarrow> key \<noteq> b @ CHR ''_'' # w) \<longrightarrow> extractBaseKey key = key)"
  by (simp add: extractBaseKey_def replace_plural_suffix_strip replace_plural_suffix_keep)

lemma not_plural_hello_world:
  "\<forall>b w. w \<in> set plural_words \<longrightarrow> ''hello_world'' \<noteq> b @ CHR ''_'' # w"
  by (simp add: plural_words_def Cons_eq_append_conv)

theorem extractBaseKey_plural_suffix_witness:
  "extractBaseKey ''items_plural'' = ''items'' \<and> extractBaseKey ''items_one'' = ''items''
   \<and> extractBaseKey ''hello_world'' = ''hello_world''"
  using extractBaseKey_plural_suffix [of "''plural''" "''items''" "''hello_world''"]
    extractBaseKey_plural_suffix [of "''one''" "''items''" "''hello_world''"]
    not_plural_hello_world
  by (simp add: plural_words_def)

lemma count_replace_first:
  "a \<noteq> b \<Longrightarrow> a \<in> set s \<Longrightarrow> count_list (replace_first a b s) a = count_list s a - 1"
  by (induction s) auto

lemma count_list_0_iff': "(count_list s a = 0) = (a \<notin> set s)"
  by (induction s) auto

lemma replace_first_fix_iff:
  "a \<noteq> b \<Longrightarrow> (replace_first a b s = s) = (a \<notin> set s)"
  by (induction s) auto

text \<open>
  Claim C2, as amended. Normalizing twice gives the same key as normalizing once exactly for
  the keys with at most one colon: the second call replaces the second colon of the raw key.
\<close>

theorem normalizeKey_idempotent_iff:
  "(normalizeKey (normalizeKey k ns) ns' = normalizeKey k ns) = (count_list k CHR '':'' \<le> 1)"
proof (cases "CHR '':'' \<in> set k")
  case False
  then show ?thesis by (simp add: normalizeKey_replace replace_first_absent count_list_0_iff')
next
  case True
  have "(replace_first CHR '':'' CHR ''.'' (replace_first CHR '':'' CHR ''.'' k) = replace_first CHR '':'' CHR ''.'' k)
      = (CHR '':'' \<notin> set (replace_first CHR '':'' CHR ''.'' k))"
    by (rule replace_first_fix_iff) simp
  also have "\<dots> = (count_list (replace_first CHR '':'' CHR ''.'' k) CHR '':'' = 0)"
    by (simp add: count_list_0_iff')
  also have "\<dots> = (count_list k CHR '':'' \<le> 1)"
    using True by (subst count_replace_first) auto
  finally show ?thesis by (simp add: normalizeKey_replace)
qed

text \<open>
  The key \<^verbatim>\<open>a:b:c\<close> is normalized to \<^verbatim>\<open>a.b:c\<close>, and that one to \<^verbatim>\<open>a.b.c\<close>.
\<close>

theorem normalizeKey_idempotent_counterexample:
  "normalizeKey (normalizeKey ''a:b:c'' None) None \<noteq> normalizeKey ''a:b:c'' None"
  by (simp add: normalizeKey_def includes_char_def)

theorem normalizeKey_idempotent_iff_witness:
  "count_list ''common:welcome'' CHR '':'' \<le> 1 \<and> 
   normalizeKey (normalizeKey ''common:welcome'' None) None = normalizeKey ''common:welcome'' None"
  using normalizeKey_idempotent_iff [of "''common:welcome''" None None]
  by simp

section \<open>Properties of tracking\<close>

lemma getMemoryMap_put:
  "getMemoryMap g = Some m \<Longrightarrow> getMemoryMap (putMemoryMap m' g) = Some m'"
  by (cases g) (auto simp: getMemoryMap_def putMemoryMap_def getContentStorageWindow_def)

lemma getMemoryMap_track:
  "getMemoryMap g = Some m \<Longrightarrow>
   getMemoryMap (trackTranslation v k ns l t g) =
     Some (AList.update v
       \<lparr>ids = insert (normalizeKey k ns) (case map_of m v of Some e \<Rightarrow> ids e | None \<Rightarrow> {}),
        type = Text, metadata = Some \<lparr>namespace = ns, language = l, trackedAt = Some t\<rparr>\<rparr> m)"
  by (simp add: trackTranslation_def getMemoryMap_put Let_def)

lemma trackTranslation_uninitialized:
  "getMemoryMap g = None \<Longrightarrow> trackTranslation v k ns l t g = g"
  by (simp add: trackTranslation_def)

lemma length_filter_key_update:
  "distinct (map fst m) \<Longrightarrow> length (filter (\<lambda>p. fst p = v) (AList.update v e m)) = 1"
proof (induction m)
  case Nil
  then show ?case by simp
next
  case (Cons p m)
  show ?case
  proof (cases "fst p = v")
    case True
    with Cons.prems have "v \<notin> fst ` set m" by auto
    then have "filter (\<lambda>p. fst p = v) m = []" by (auto simp: filter_empty_conv)
    with True show ?thesis by simp
  next
    case False
    with Cons show ?thesis by simp
  qed
qed

text \<open>
  Claim C4. On an initialized store whose map has no entry for the value yet, two calls for
  that value with keys whose normalized forms differ leave exactly one entry for it, and the
  ids of that entry are the two normalized keys, two in number. In general a call never takes
  an id away from an existing entry: a call for the same value adds its normalized key to the
  ids, a call for another value leaves the entry as it is.
\<close>

theorem trackTranslation_keys_accumulate:
  "(getMemoryMap g = Some m \<and> distinct (map fst m) \<and> map_of m v = None
      \<and> normalizeKey k1 ns1 \<noteq> normalizeKey k2 ns2 \<longrightarrow>
      (\<exists>m2 e. getMemoryMap (trackTranslation v k2 ns2 l2 t2 (trackTranslation v k1 ns1 l1 t1 g)) = Some m2
         \<and> length (filter (\<lambda>p. fst p = v) m2) = 1
         \<and> map_of m2 v = Some e
         \<and> ids e = {normalizeKey k1 ns1, normalizeKey k2 ns2}
         \<and> card (ids e) = 2))
   \<and> (getMemoryMap g = Some m \<and> map_of m v = Some e0 \<longrightarrow>
      (\<exists>m' e'. getMemoryMap (trackTranslation v' k ns l t g) = Some m'
         \<and> map_of m' v = Some e'
         \<and> ids e0 \<subseteq> ids e'
         \<and> (v' = v \<longrightarrow> ids e' = insert (normalizeKey k ns) (ids e0))
         \<and> (v' \<noteq> v \<longrightarrow> e' = e0)))"
proof (intro conjI impI)
  assume h: "getMemoryMap g = Some m \<and> distinct (map fst m) \<and> map_of m v = None
      \<and> normalizeKey k1 ns1 \<noteq> normalizeKey k2 ns2"
  let ?e1 = "\<lparr>ids = {normalizeKey k1 ns1}, type = Text,
        metadata = Some \<lparr>namespace = ns1, language = l1, trackedAt = Some t1\<rparr>\<rparr>"
  let ?m1 = "AList.update v ?e1 m"
  let ?e2 = "\<lparr>ids = {normalizeKey k2 ns2, normalizeKey k1 ns1}, type = Text,
        metadata = Some \<lparr>namespace = ns2, language = l2, trackedAt = Some t2\<rparr>\<rparr>"
  let ?m2 = "AList.update v ?e2 ?m1"
  have g1: "getMemoryMap (trackTranslation v k1 ns1 l1 t1 g) = Some ?m1"
    using h by (simp add: getMemoryMap_track)
  have g2: "getMemoryMap (trackTranslation v k2 ns2 l2 t2 (trackTranslation v k1 ns1 l1 t1 g)) = Some ?m2"
    by (simp add: getMemoryMap_track [OF g1] update_conv')
  have d1: "distinct (map fst ?m1)" using h by (simp add: distinct_update)
  have one: "length (filter (\<lambda>p. fst p = v) ?m2) = 1"
    by (rule length_filter_key_update [OF d1])
  have look: "map_of ?m2 v = Some ?e2" by (simp add: update_conv')
  have idse: "ids ?e2 = {normalizeKey k1 ns1, normalizeKey k2 ns2}" by auto
  have "card (ids ?e2) = 2" using h by (auto simp: card_insert_if)
  with g2 one look idse
  show "\<exists>m2 e. getMemoryMap (trackTranslation v k2 ns2 l2 t2 (trackTranslation v k1 ns1 l1 t1 g)) = Some m2
         \<and> length (filter (\<lambda>p. fst p = v) m2) = 1
         \<and> map_of m2 v = Some e
         \<and> ids e = {normalizeKey k1 ns1, normalizeKey k2 ns2}
         \<and> card (ids e) = 2"
    by blast
next
  assume h: "getMemoryMap g = Some m \<and> map_of m v = Some e0"
  then have gm: "getMemoryMap g = Some m" and look: "map_of m v = Some e0" by simp_all
  show "\<exists>m' e'. getMemoryMap (trackTranslation v' k ns l t g) = Some m'
         \<and> map_of m' v = Some e'
         \<and> ids e0 \<subseteq> ids e'
         \<and> (v' = v \<longrightarrow> ids e' = insert (normalizeKey k ns) (ids e0))
         \<and> (v' \<noteq> v \<longrightarrow> e' = e0)"
  proof (cases "v' = v")
    case True
    with look show ?thesis
      by (auto simp: getMemoryMap_track [OF gm] update_conv')
  next
    case False
    with look show ?thesis
      by (auto simp: getMemoryMap_track [OF gm] update_conv')
  qed
qed

theorem trackTranslation_keys_accumulate_witness:
  "(\<exists>m2 e. getMemoryMap
        (trackTranslation ''Welcome'' ''homepage.title'' (Some ''homepage'') (Some ''en'') 2
          (trackTranslation ''Welcome'' ''common:welcome'' (Some ''common'') (Some ''en'') 1
            (Some \<lparr>memoryMap = Some []\<rparr>))) = Some m2
      \<and> length (filter (\<lambda>p. fst p = ''Welcome'') m2) = 1
      \<and> map_of m2 ''Welcome'' = Some e
      \<and> ids e = {''common.welcome'', ''homepage.title''}
      \<and> card (ids e) = 2)
   \<and> (\<exists>m' e'. getMemoryMap
        (trackTranslation ''Welcome'' ''homepage.title'' None (Some ''en'') 2
          (Some \<lparr>memoryMap = Some [(''Welcome'',
             \<lparr>ids = {''common.welcome''}, type = Text, metadata = None\<rparr>)]\<rparr>)) = Some m'
      \<and> map_of m' ''Welcome'' = Some e'
      \<and> {''common.welcome''} \<subseteq> ids e'
      \<and> ids e' = {''homepage.title'', ''common.welcome''})"
proof -
  let ?g = "Some \<lparr>memoryMap = Some []\<rparr>"
  let ?e0 = "\<lparr>ids = {''common.welcome''}, type = Text, metadata = None\<rparr>"
  let ?g' = "Some \<lparr>memoryMap = Some [(''Welcome'', ?e0)]\<rparr>"
  have n1: "normalizeKey ''common:welcome'' (Some ''common'') = ''common.welcome''"
    and n2: "normalizeKey ''homepage.title'' ns = ''homepage.title''" for ns
    by (simp_all add: normalizeKey_def includes_char_def)
  have h1: "getMemoryMap ?g = Some [] \<and> distinct (map fst ([] :: MemoryMap)) \<and> map_of ([] :: MemoryMap) ''Welcome'' = None
      \<and> normalizeKey ''common:welcome'' (Some ''common'') \<noteq> normalizeKey ''homepage.title'' (Some ''homepage'')"
    by (simp add: getMemoryMap_def getContentStorageWindow_def n1 n2)
  have h2: "getMemoryMap ?g' = Some [(''Welcome'', ?e0)] \<and> map_of [(''Welcome'', ?e0)] ''Welcome'' = Some ?e0"
    by (simp add: getMemoryMap_def getContentStorageWindow_def)
  note a = trackTranslation_keys_accumulate [where g = ?g and m = "[]" and v = "''Welcome''"
      and ?k1.0 = "''common:welcome''" and ?ns1.0 = "Some ''common''"
      and ?k2.0 = "''homepage.title''" and ?ns2.0 = "Some ''homepage''"
      and ?l1.0 = "Some ''en''" and ?l2.0 = "Some ''en''" and ?t1.0 = 1 and ?t2.0 = 2, THEN conjunct1, rule_format, OF h1]
  note b = trackTranslation_keys_accumulate [where g = ?g' and m = "[(''Welcome'', ?e0)]" and v = "''Welcome''"
      and v' = "''Welcome''" and ?e0.0 = ?e0 and k = "''homepage.title''" and ns = None
      and l = "Some ''en''" and t = 2, THEN conjunct2, rule_format, OF h2]
  from a b show ?thesis unfolding n1 n2 by simp
qed

lemma loop_no_empty_value:
  "getMemoryMap g = Some m \<Longrightarrow> map_of m [] = None \<Longrightarrow>
   \<exists>m'. getMemoryMap (trackTranslations_loop flat lang clock i g) = Some m' \<and> map_of m' [] = None"
proof (induction flat arbitrary: g m i)
  case Nil
  then show ?case by simp
next
  case (Cons p flat)
  obtain key v where p: "p = (key, v)" by (cases p)
  show ?case
  proof (cases "v = []")
    case True
    with Cons p show ?thesis by simp
  next
    case False
    let ?g' = "trackTranslation v key None (Some lang) (clock i) g"
    from Cons.prems(1) obtain m1 where m1: "getMemoryMap ?g' = Some m1" "map_of m1 [] = map_of m []"
      using False by (auto simp: getMemoryMap_track update_conv')
    with Cons.prems(2) have "map_of m1 [] = None" by simp
    from Cons.IH [OF m1(1) this] False p show ?thesis by simp
  qed
qed

text \<open>
  Claim C5, as amended. On a store that is not initialized every call of \<^verbatim>\<open>trackTranslation\<close>,
  whatever its arguments, returns and leaves the global state as it was. The function has no
  test of the value; the empty values are passed over by the bulk loader before it calls
  \<^verbatim>\<open>trackTranslation\<close>, so loading a payload never creates an entry for the empty string.
\<close>

theorem trackTranslation_permissive:
  "(getMemoryMap g = None \<longrightarrow> trackTranslation v k ns l t g = g)
   \<and> (getMemoryMap g = Some m \<and> map_of m [] = None \<longrightarrow>
        (\<exists>m'. getMemoryMap (trackTranslations obj lang clock g) = Some m' \<and> map_of m' [] = None))"
proof (intro conjI impI)
  assume "getMemoryMap g = None"
  then show "trackTranslation v k ns l t g = g" by (rule trackTranslation_uninitialized)
next
  assume h: "getMemoryMap g = Some m \<and> map_of m [] = None"
  then obtain win where "g = Some win"
    by (cases g) (auto simp: getMemoryMap_def getContentStorageWindow_def)
  then have "trackTranslations obj lang clock g
      = trackTranslations_loop (flattenTranslations obj []) lang clock 0 g"
    by (simp add: trackTranslations_def)
  with h show "\<exists>m'. getMemoryMap (trackTranslations obj lang clock g) = Some m' \<and> map_of m' [] = None"
    by (simp add: loop_no_empty_value)
qed

text \<open>
  On an initialized, empty store the call with the empty value and the key \<^verbatim>\<open>k\<close> changes the
  store: the map then holds an entry for the empty string.
\<close>

theorem trackTranslation_permissive_counterexample:
  "trackTranslation [] ''k'' None None 0 (Some \<lparr>memoryMap = Some []\<rparr>) \<noteq> Some \<lparr>memoryMap = Some []\<rparr>
   \<and> getMemoryMap (trackTranslation [] ''k'' None None 0 (Some \<lparr>memoryMap = Some []\<rparr>)) =
       Some [([], \<lparr>ids = {''k''}, type = Text,
                   metadata = Some \<lparr>namespace = None, language = None, trackedAt = Some 0\<rparr>\<rparr>)]"
  by (simp add: trackTranslation_def getMemoryMap_def getContentStorageWindow_def putMemoryMap_def
      normalizeKey_def includes_char_def)

theorem trackTranslation_permissive_witness:
  "trackTranslation [] ''k'' None None 0 None = None
   \<and> trackTranslation ''Welcome'' ''k'' None None 0 (Some \<lparr>memoryMap = None\<rparr>) = Some \<lparr>memoryMap = None\<rparr>
   \<and> (\<exists>m'. getMemoryMap (trackTranslations [(''a'', JString []), (''b'', JString ''x'')] ''en'' (\<lambda>i. 7)
               (Some \<lparr>memoryMap = Some []\<rparr>)) = Some m' \<and> map_of m' [] = None)"
proof -
  have h0: "getMemoryMap None = None" "getMemoryMap (Some \<lparr>memoryMap = None\<rparr>) = None"
    by (simp_all add: getMemoryMap_def getContentStorageWindow_def)
  have h1: "getMemoryMap (Some \<lparr>memoryMap = Some []\<rparr>) = Some [] \<and> map_of ([] :: MemoryMap) [] = None"
    by (simp add: getMemoryMap_def getContentStorageWindow_def)
  note a = trackTranslation_permissive [where g = None and v = "[]" and k = "''k''" and ns = None
      and l = None and t = 0, THEN conjunct1, rule_format, OF h0(1)]
  note b = trackTranslation_permissive [where g = "Some \<lparr>memoryMap = None\<rparr>" and v = "''Welcome''"
      and k = "''k''" and ns = None and l = None and t = 0, THEN conjunct1, rule_format, OF h0(2)]
  note c = trackTranslation_permissive [where g = "Some \<lparr>memoryMap = Some []\<rparr>" and m = "[]"
      and obj = "[(''a'', JString []), (''b'', JString ''x'')]" and lang = "''en''" and clock = "\<lambda>i. 7",
      THEN conjunct2, rule_format, OF h1]
  from a b c show ?thesis by simp
qed

text \<open>
  Claim C3. The variables of a call never reach the store. Whatever mapping is passed as sixth
  argument, the global state after the call is the state after the call without variables,
  and the entry written is a new object of ids, type and metadata alone: after a call with the
  variables \<^verbatim>\<open>{userName: 'Alice'}\<close> on an initialized, empty store, the entry of the value
  holds no variables, where the tests expect the mapping.
\<close>

theorem trackTranslation_call_drops_variables:
  "trackTranslation_call v k ns l d vars t g = trackTranslation_call v k ns l d None t g
   \<and> getMemoryMap (trackTranslation_call ''User activity'' ''user.activity'' None (Some ''en'') False
        (Some [(''userName'', JString ''Alice'')]) 1 (Some \<lparr>memoryMap = Some []\<rparr>))
     = Some [(''User activity'',
          \<lparr>ids = {''user.activity''}, type = Text,
           metadata = Some \<lparr>namespace = None, language = Some ''en'', trackedAt = Some 1\<rparr>\<rparr>)]"
proof
  show "trackTranslation_call v k ns l d vars t g = trackTranslation_call v k ns l d None t g"
    by (simp add: trackTranslation_call_def)
  have g0: "getMemoryMap (Some \<lparr>memoryMap = Some []\<rparr>) = Some []"
    by (simp add: getMemoryMap_def getContentStorageWindow_def)
  have n: "normalizeKey ''user.activity'' None = ''user.activity''"
    by (simp add: normalizeKey_def includes_char_def)
  show "getMemoryMap (trackTranslation_call ''User activity'' ''user.activity'' None (Some ''en'') False
        (Some [(''userName'', JString ''Alice'')]) 1 (Some \<lparr>memoryMap = Some []\<rparr>))
     = Some [(''User activity'',
          \<lparr>ids = {''user.activity''}, type = Text,
           metadata = Some \<lparr>namespace = None, language = Some ''en'', trackedAt = Some 1\<rparr>\<rparr>)]"
    by (simp add: trackTranslation_call_def getMemoryMap_track [OF g0] n)
qed

section \<open>Properties of eviction\<close>

lemma set_sorted_entries:
  "set (sorted_entries m) = (\<lambda>p. (fst p, snd p, timestamp_of (snd p))) ` set m"
  by (auto simp: sorted_entries_def case_prod_beta)

lemma length_sorted_entries: "length (sorted_entries m) = length m"
  by (simp add: sorted_entries_def)

lemma sorted_sorted_entries: "sorted (map (\<lambda>x. snd (snd x)) (sorted_entries m))"
proof -
  have "(\<lambda>(key, v, timestamp). timestamp) = (\<lambda>x :: string \<times> MemoryMapEntry \<times> int. snd (snd x))"
    by (simp add: fun_eq_iff)
  then show ?thesis by (simp add: sorted_entries_def sorted_sort_key)
qed

lemma distinct_keys_sorted_entries:
  assumes "distinct (map fst m)"
  shows "distinct (map fst (sorted_entries m))"
proof -
  let ?trip = "\<lambda>(key, v). (key, v, timestamp_of v)"
  have e: "map fst (map ?trip m) = map fst m" by (induction m) auto
  have d: "distinct (map fst (map ?trip m))" using assms by (simp only: e)
  then have "distinct (map ?trip m)" "inj_on fst (set (map ?trip m))"
    by (simp_all only: distinct_map)
  then have "distinct (sorted_entries m)" "inj_on fst (set (sorted_entries m))"
    by (simp_all add: sorted_entries_def)
  then show ?thesis by (simp only: distinct_map)
qed

lemma cleanup_loop_filter:
  "i + n \<le> length es \<Longrightarrow>
   cleanup_loop es i n m = Inr (filter (\<lambda>p. fst p \<notin> fst ` set (take n (drop i es))) m)"
proof (induction n arbitrary: i m)
  case 0
  then show ?case by simp
next
  case (Suc n)
  then have i: "i < length es" and le: "Suc i + n \<le> length es" by simp_all
  have t: "take (Suc n) (drop i es) = es ! i # take n (drop (Suc i) es)"
    using i by (simp add: Cons_nth_drop_Suc [symmetric])
  have "cleanup_loop es i (Suc n) m = cleanup_loop es (Suc i) n (AList.delete (fst (es ! i)) m)"
    using i by simp
  also have "\<dots> = Inr (filter (\<lambda>p. fst p \<notin> fst ` set (take n (drop (Suc i) es)))
                        (AList.delete (fst (es ! i)) m))"
    by (rule Suc.IH [OF le])
  also have "filter (\<lambda>p. fst p \<notin> fst ` set (take n (drop (Suc i) es))) (AList.delete (fst (es ! i)) m)
      = filter (\<lambda>p. fst p \<notin> fst ` set (take (Suc n) (drop i es))) m"
    unfolding t by (auto simp: AList.delete_eq case_prod_beta intro: filter_cong)
  finally show ?case .
qed

lemma cleanupMemoryMap_small:
  "getMemoryMap g = Some m \<Longrightarrow> int (length m) \<le> maxSize \<Longrightarrow> cleanupMemoryMap maxSize g = Inr g"
  by (simp add: cleanupMemoryMap_def)

lemma cleanupMemoryMap_large:
  assumes "getMemoryMap g = Some m" "0 \<le> maxSize" "maxSize < int (length m)"
  shows "cleanupMemoryMap maxSize g
           = Inr (putMemoryMap (filter (\<lambda>p. fst p \<notin> evicted maxSize m) m) g)"
proof -
  have "0 + nat (int (length m) - maxSize) \<le> length (sorted_entries m)"
    using assms by (simp add: length_sorted_entries)
  from cleanup_loop_filter [OF this, of m] assms show ?thesis
    by (simp add: cleanupMemoryMap_def evicted_def Let_def)
qed

lemma card_evicted:
  assumes "distinct (map fst m)" "0 \<le> maxSize" "maxSize < int (length m)"
  shows "card (evicted maxSize m) = nat (int (length m) - maxSize)"
proof -
  let ?n = "nat (int (length m) - maxSize)"
  have "distinct (take ?n (map fst (sorted_entries m)))"
    using distinct_keys_sorted_entries [OF assms(1)] by (rule distinct_take)
  then have "card (set (take ?n (map fst (sorted_entries m)))) = length (take ?n (map fst (sorted_entries m)))"
    by (rule distinct_card)
  moreover have "set (take ?n (map fst (sorted_entries m))) = evicted maxSize m"
    by (simp add: evicted_def take_map)
  moreover have "length (take ?n (map fst (sorted_entries m))) = ?n"
    using assms by (simp add: length_sorted_entries)
  ultimately show ?thesis by simp
qed

lemma evicted_subset: "evicted maxSize m \<subseteq> fst ` set m"
proof -
  have "set (take n (sorted_entries m)) \<subseteq> set (sorted_entries m)" for n
    by (rule set_take_subset)
  then show ?thesis by (force simp: evicted_def set_sorted_entries)
qed

lemma length_survivors:
  assumes "distinct (map fst m)" "0 \<le> maxSize" "maxSize < int (length m)"
  shows "length (filter (\<lambda>p. fst p \<notin> evicted maxSize m) m) = nat maxSize"
proof -
  let ?K = "evicted maxSize m"
  have "length (filter (\<lambda>p. fst p \<in> ?K) m) = length (filter (\<lambda>k. k \<in> ?K) (map fst m))"
    by (simp add: filter_map comp_def)
  also have "\<dots> = card ({k. k \<in> ?K} \<inter> set (map fst m))"
    using assms(1) by (rule distinct_length_filter)
  also have "{k. k \<in> ?K} \<inter> set (map fst m) = ?K"
    using evicted_subset [of maxSize m] by auto
  finally have gone: "length (filter (\<lambda>p. fst p \<in> ?K) m) = nat (int (length m) - maxSize)"
    using assms by (simp add: card_evicted)
  have "length (filter (\<lambda>p. fst p \<in> ?K) m) + length (filter (\<lambda>p. \<not> fst p \<in> ?K) m) = length m"
    by (rule sum_length_filter_compl)
  with gone assms show ?thesis by simp
qed

lemma evicted_entry:
  assumes "distinct (map fst m)" "(k, v) \<in> set m" "k \<in> evicted maxSize m"
  shows "(k, v, timestamp_of v) \<in> set (take (nat (int (length m) - maxSize)) (sorted_entries m))"
proof -
  let ?n = "nat (int (length m) - maxSize)"
  from assms(3) obtain x where x: "x \<in> set (take ?n (sorted_entries m))" "fst x = k"
    by (auto simp: evicted_def)
  then have "x \<in> set (sorted_entries m)" by (meson in_set_takeD)
  then obtain p where p: "p \<in> set m" "x = (fst p, snd p, timestamp_of (snd p))"
    by (auto simp: set_sorted_entries)
  with x have fk: "fst p = k" by simp
  with p(1) assms(1,2) have "snd p = v"
    by (metis eq_key_imp_eq_value prod.collapse)
  with p x fk show ?thesis by simp
qed

lemma kept_entry:
  assumes "(k, v) \<in> set m" "k \<notin> evicted maxSize m"
  shows "(k, v, timestamp_of v) \<in> set (drop (nat (int (length m) - maxSize)) (sorted_entries m))"
proof -
  let ?n = "nat (int (length m) - maxSize)"
  have "(k, v, timestamp_of v) \<in> set (sorted_entries m)"
    using assms(1) by (force simp: set_sorted_entries)
  then have "(k, v, timestamp_of v) \<in> set (take ?n (sorted_entries m)) \<union> set (drop ?n (sorted_entries m))"
    by (simp only: set_append [symmetric] append_take_drop_id)
  moreover have "(k, v, timestamp_of v) \<notin> set (take ?n (sorted_entries m))"
    using assms(2) by (force simp: evicted_def)
  ultimately show ?thesis by simp
qed

lemma take_le_drop:
  assumes "x \<in> set (take n (sorted_entries m))" "y \<in> set (drop n (sorted_entries m))"
  shows "snd (snd x) \<le> snd (snd y)"
proof -
  have "sorted (map (\<lambda>x. snd (snd x)) (take n (sorted_entries m) @ drop n (sorted_entries m)))"
    using sorted_sorted_entries [of m] by simp
  then show ?thesis using assms by (auto simp: sorted_append simp del: append_take_drop_id)
qed

text \<open>
  Claim C1. The map has distinct keys, as every Map has, and the timestamps that
  \<^verbatim>\<open>cleanupMemoryMap\<close> reads from its entries are pairwise distinct; \<open>maxSize\<close> is a
  non-negative integer. Then the call returns without a throw. With at most \<open>maxSize\<close> entries
  the global state is unchanged. With more, the map it leaves has exactly \<open>maxSize\<close> entries,
  the number of entries removed is the count minus \<open>maxSize\<close>, every entry left is an entry
  of the old map, and every removed entry has a smaller timestamp than every entry left.
\<close>

theorem cleanupMemoryMap_keeps_newest:
  assumes "getMemoryMap g = Some m" and "distinct (map fst m)"
    and "distinct (map (\<lambda>p. timestamp_of (snd p)) m)" and "0 \<le> maxSize"
  shows "\<exists>g' m'. cleanupMemoryMap maxSize g = Inr g' \<and> getMemoryMap g' = Some m'
     \<and> (int (length m) \<le> maxSize \<longrightarrow> g' = g \<and> m' = m)
     \<and> (maxSize < int (length m) \<longrightarrow>
          length m' = nat maxSize
        \<and> length m - length m' = nat (int (length m) - maxSize)
        \<and> set m' \<subseteq> set m
        \<and> (\<forall>kept \<in> set m'. \<forall>gone \<in> set m - set m'.
              timestamp_of (snd gone) < timestamp_of (snd kept)))"
proof (cases "int (length m) \<le> maxSize")
  case True
  with assms(1) show ?thesis by (simp add: cleanupMemoryMap_small)
next
  case False
  then have big: "maxSize < int (length m)" by simp
  let ?m' = "filter (\<lambda>p. fst p \<notin> evicted maxSize m) m"
  have res: "cleanupMemoryMap maxSize g = Inr (putMemoryMap ?m' g)"
    using assms(1,4) big by (rule cleanupMemoryMap_large)
  have get: "getMemoryMap (putMemoryMap ?m' g) = Some ?m'"
    using assms(1) by (cases g) (auto simp: getMemoryMap_def putMemoryMap_def getContentStorageWindow_def)
  have len: "length ?m' = nat maxSize"
    using assms(2,4) big by (rule length_survivors)
  have order: "timestamp_of (snd gone) < timestamp_of (snd kept)"
    if kept: "kept \<in> set ?m'" and gone: "gone \<in> set m - set ?m'" for kept gone
  proof -
    from kept have k: "(fst kept, snd kept) \<in> set m" "fst kept \<notin> evicted maxSize m" by simp_all
    from gone have g: "(fst gone, snd gone) \<in> set m" "fst gone \<in> evicted maxSize m" by simp_all
    have "snd (snd (fst gone, snd gone, timestamp_of (snd gone)))
        \<le> snd (snd (fst kept, snd kept, timestamp_of (snd kept)))"
      using evicted_entry [OF assms(2) g] kept_entry [OF k] by (rule take_le_drop)
    then have le: "timestamp_of (snd gone) \<le> timestamp_of (snd kept)" by simp
    from k g have "kept \<noteq> gone" by auto
    moreover have "inj_on (\<lambda>p. timestamp_of (snd p)) (set m)"
      using assms(3) by (simp add: distinct_map)
    ultimately have "timestamp_of (snd gone) \<noteq> timestamp_of (snd kept)"
      using k(1) g(1) by (auto dest: inj_onD)
    with le show ?thesis by simp
  qed
  have "length m - length ?m' = nat (int (length m) - maxSize)"
    using len assms(4) big by simp
  with res get len big order show ?thesis by auto
qed

theorem cleanupMemoryMap_keeps_newest_witness:
  "cleanupMemoryMap 2 (Some \<lparr>memoryMap = Some
       [(''a'', \<lparr>ids = {''k''}, type = Text, metadata = Some \<lparr>namespace = None, language = None, trackedAt = Some 30\<rparr>\<rparr>),
        (''b'', \<lparr>ids = {''k''}, type = Text, metadata = Some \<lparr>namespace = None, language = None, trackedAt = Some 10\<rparr>\<rparr>),
        (''c'', \<lparr>ids = {''k''}, type = Text, metadata = Some \<lparr>namespace = None, language = None, trackedAt = Some 20\<rparr>\<rparr>)]\<rparr>)
   = Inr (Some \<lparr>memoryMap = Some
       [(''a'', \<lparr>ids = {''k''}, type = Text, metadata = Some \<lparr>namespace = None, language = None, trackedAt = Some 30\<rparr>\<rparr>),
        (''c'', \<lparr>ids = {''k''}, type = Text, metadata = Some \<lparr>namespace = None, language = None, trackedAt = Some 20\<rparr>\<rparr>)]\<rparr>)
   \<and> (\<exists>g' m'. cleanupMemoryMap 2 (Some \<lparr>memoryMap = Some
       [(''a'', \<lparr>ids = {''k''}, type = Text, metadata = Some \<lparr>namespace = None, language = None, trackedAt = Some 30\<rparr>\<rparr>),
        (''b'', \<lparr>ids = {''k''}, type = Text, metadata = Some \<lparr>namespace = None, language = None, trackedAt = Some 10\<rparr>\<rparr>),
        (''c'', \<lparr>ids = {''k''}, type = Text, metadata = Some \<lparr>namespace = None, language = None, trackedAt = Some 20\<rparr>\<rparr>)]\<rparr>) = Inr g'
      \<and> getMemoryMap g' = Some m' \<and> length m' = 2)"
proof -
  let ?e = "\<lambda>t. \<lparr>ids = {''k''}, type = Text, metadata = Some \<lparr>namespace = None, language = None, trackedAt = Some t\<rparr>\<rparr>"
  let ?m = "[(''a'', ?e 30), (''b'', ?e 10), (''c'', ?e 20)]"
  let ?g = "Some \<lparr>memoryMap = Some ?m\<rparr>"
  have h1: "getMemoryMap ?g = Some ?m" by (simp add: getMemoryMap_def getContentStorageWindow_def)
  have h2: "distinct (map fst ?m)" by simp
  have h3: "distinct (map (\<lambda>p. timestamp_of (snd p)) ?m)" by (simp add: timestamp_of_def)
  have h4: "(0::int) \<le> 2" by simp
  have ev: "cleanupMemoryMap 2 ?g = Inr (Some \<lparr>memoryMap = Some [(''a'', ?e 30), (''c'', ?e 20)]\<rparr>)"
    by (simp add: cleanupMemoryMap_def getMemoryMap_def getContentStorageWindow_def sorted_entries_def
      timestamp_of_def putMemoryMap_def)
  from cleanupMemoryMap_keeps_newest [OF h1 h2 h3 h4]
  have "\<exists>g' m'. cleanupMemoryMap 2 ?g = Inr g' \<and> getMemoryMap g' = Some m' \<and> length m' = 2"
    by auto
  with ev show ?thesis by simp
qed

lemma timestamp_of_missing:
  "metadata v = None \<or> (\<exists>md. metadata v = Some md \<and> trackedAt md = None) \<Longrightarrow> timestamp_of v = 0"
  by (auto simp: timestamp_of_def)

lemma timestamp_of_present:
  "metadata v = Some md \<Longrightarrow> trackedAt md = Some t \<Longrightarrow> timestamp_of v = t"
  by (simp add: timestamp_of_def)

lemma sorted_entries_index_order:
  assumes "i < length (sorted_entries m)" "j < length (sorted_entries m)"
    and "snd (snd (sorted_entries m ! i)) < snd (snd (sorted_entries m ! j))"
  shows "i < j"
proof (rule ccontr)
  assume "\<not> i < j"
  then have "j \<le> i" by simp
  with sorted_sorted_entries [of m] assms(1)
  have "map (\<lambda>x. snd (snd x)) (sorted_entries m) ! j \<le> map (\<lambda>x. snd (snd x)) (sorted_entries m) ! i"
    by (intro sorted_nth_mono) simp_all
  with assms show False by simp
qed

text \<open>
  Claim C10. In a map with more than \<open>maxSize\<close> entries, an entry without metadata or
  without \<^verbatim>\<open>trackedAt\<close> has the timestamp 0 and stands in the sorted array before every entry
  with a positive \<^verbatim>\<open>trackedAt\<close>, wherever the two stand in the map. The loop deletes along
  the array, so the first is deleted before the second: when the entry with the positive
  timestamp is gone after the call, so is the one without a timestamp.
\<close>

theorem cleanupMemoryMap_missing_timestamp_first:
  assumes "getMemoryMap g = Some m" and "distinct (map fst m)"
    and "0 \<le> maxSize" and "maxSize < int (length m)"
    and "(k0, v0) \<in> set m"
    and "metadata v0 = None \<or> (\<exists>md. metadata v0 = Some md \<and> trackedAt md = None)"
    and "(k1, v1) \<in> set m" and "metadata v1 = Some md1" and "trackedAt md1 = Some t1" and "0 < t1"
  shows "timestamp_of v0 = 0
     \<and> (\<exists>i j. i < j \<and> j < length (sorted_entries m)
            \<and> sorted_entries m ! i = (k0, v0, 0) \<and> sorted_entries m ! j = (k1, v1, t1))
     \<and> (\<exists>g' m'. cleanupMemoryMap maxSize g = Inr g' \<and> getMemoryMap g' = Some m'
            \<and> (map_of m' k1 = None \<longrightarrow> map_of m' k0 = None))"
proof -
  let ?es = "sorted_entries m"
  let ?n = "nat (int (length m) - maxSize)"
  have t0: "timestamp_of v0 = 0" using assms(6) by (rule timestamp_of_missing)
  have t1: "timestamp_of v1 = t1" using assms(8,9) by (rule timestamp_of_present)
  have in0: "(k0, v0, 0) \<in> set ?es" using assms(5) t0 by (force simp: set_sorted_entries)
  have in1: "(k1, v1, t1) \<in> set ?es" using assms(7) t1 by (force simp: set_sorted_entries)
  from in0 obtain i where i: "i < length ?es" "?es ! i = (k0, v0, 0)"
    by (auto simp: in_set_conv_nth)
  from in1 obtain j where j: "j < length ?es" "?es ! j = (k1, v1, t1)"
    by (auto simp: in_set_conv_nth)
  have ij: "i < j" using i j assms(10) by (intro sorted_entries_index_order [of i m j]) simp_all
  have pos: "\<exists>i j. i < j \<and> j < length ?es \<and> ?es ! i = (k0, v0, 0) \<and> ?es ! j = (k1, v1, t1)"
    using i j ij by blast
  let ?m' = "filter (\<lambda>p. fst p \<notin> evicted maxSize m) m"
  have res: "cleanupMemoryMap maxSize g = Inr (putMemoryMap ?m' g)"
    using assms(1,3,4) by (rule cleanupMemoryMap_large)
  have get: "getMemoryMap (putMemoryMap ?m' g) = Some ?m'"
    using assms(1) by (cases g) (auto simp: getMemoryMap_def putMemoryMap_def getContentStorageWindow_def)
  have gone: "map_of ?m' k0 = None" if "map_of ?m' k1 = None"
  proof -
    from that have "k1 \<notin> fst ` set ?m'" by (simp add: map_of_eq_None_iff)
    with assms(7) have "k1 \<in> evicted maxSize m" by force
    from evicted_entry [OF assms(2,7) this] t1
    have "(k1, v1, t1) \<in> set (take ?n ?es)" by simp
    then obtain j' where j': "j' < length (take ?n ?es)" "take ?n ?es ! j' = (k1, v1, t1)"
      by (auto simp: in_set_conv_nth)
    then have j'': "j' < ?n" "j' < length ?es" "?es ! j' = (k1, v1, t1)" by simp_all
    have "i < j'" using i j'' assms(10) by (intro sorted_entries_index_order [of i m j']) simp_all
    with j''(1) i have "i < length (take ?n ?es)" "take ?n ?es ! i = (k0, v0, 0)" by simp_all
    then have "(k0, v0, 0) \<in> set (take ?n ?es)" by (metis nth_mem)
    then have "k0 \<in> evicted maxSize m" by (force simp: evicted_def)
    then have "k0 \<notin> fst ` set ?m'" by auto
    then show ?thesis by (simp add: map_of_eq_None_iff)
  qed
  have "cleanupMemoryMap maxSize g = Inr (putMemoryMap ?m' g)
      \<and> getMemoryMap (putMemoryMap ?m' g) = Some ?m'
      \<and> (map_of ?m' k1 = None \<longrightarrow> map_of ?m' k0 = None)"
    using res get gone by simp
  then have "\<exists>g' m'. cleanupMemoryMap maxSize g = Inr g' \<and> getMemoryMap g' = Some m'
            \<and> (map_of m' k1 = None \<longrightarrow> map_of m' k0 = None)"
    by (intro exI [of _ "putMemoryMap ?m' g"] exI [of _ ?m'])
  with t0 pos show ?thesis by simp
qed

theorem cleanupMemoryMap_missing_timestamp_first_witness:
  "cleanupMemoryMap 1 (Some \<lparr>memoryMap = Some
       [(''new'', \<lparr>ids = {''k''}, type = Text, metadata = Some \<lparr>namespace = None, language = None, trackedAt = Some 5\<rparr>\<rparr>),
        (''late'', \<lparr>ids = {''k''}, type = Text, metadata = Some \<lparr>namespace = None, language = None, trackedAt = Some 7\<rparr>\<rparr>),
        (''bare'', \<lparr>ids = {''k''}, type = Text, metadata = None\<rparr>)]\<rparr>)
   = Inr (Some \<lparr>memoryMap = Some
       [(''late'', \<lparr>ids = {''k''}, type = Text, metadata = Some \<lparr>namespace = None, language = None, trackedAt = Some 7\<rparr>\<rparr>)]\<rparr>)
   \<and> timestamp_of \<lparr>ids = {''k''}, type = Text, metadata = None\<rparr> = 0
   \<and> (\<exists>i j. i < j \<and> j < length (sorted_entries
       [(''new'', \<lparr>ids = {''k''}, type = Text, metadata = Some \<lparr>namespace = None, language = None, trackedAt = Some 5\<rparr>\<rparr>),
        (''late'', \<lparr>ids = {''k''}, type = Text, metadata = Some \<lparr>namespace = None, language = None, trackedAt = Some 7\<rparr>\<rparr>),
        (''bare'', \<lparr>ids = {''k''}, type = Text, metadata = None\<rparr>)])
      \<and> sorted_entries
       [(''new'', \<lparr>ids = {''k''}, type = Text, metadata = Some \<lparr>namespace = None, language = None, trackedAt = Some 5\<rparr>\<rparr>),
        (''late'', \<lparr>ids = {''k''}, type = Text, metadata = Some \<lparr>namespace = None, language = None, trackedAt = Some 7\<rparr>\<rparr>),
        (''bare'', \<lparr>ids = {''k''}, type = Text, metadata = None\<rparr>)] ! i
          = (''bare'', \<lparr>ids = {''k''}, type = Text, metadata = None\<rparr>, 0)
      \<and> sorted_entries
       [(''new'', \<lparr>ids = {''k''}, type = Text, metadata = Some \<lparr>namespace = None, language = None, trackedAt = Some 5\<rparr>\<rparr>),
        (''late'', \<lparr>ids = {''k''}, type = Text, metadata = Some \<lparr>namespace = None, language = None, trackedAt = Some 7\<rparr>\<rparr>),
        (''bare'', \<lparr>ids = {''k''}, type = Text, metadata = None\<rparr>)] ! j
          = (''new'', \<lparr>ids = {''k''}, type = Text, metadata = Some \<lparr>namespace = None, language = None, trackedAt = Some 5\<rparr>\<rparr>, 5))"
proof -
  let ?e = "\<lambda>t. \<lparr>ids = {''k''}, type = Text, metadata = Some \<lparr>namespace = None, language = None, trackedAt = Some t\<rparr>\<rparr>"
  let ?bare = "\<lparr>ids = {''k''}, type = Text, metadata = None\<rparr>"
  let ?m = "[(''new'', ?e 5), (''late'', ?e 7), (''bare'', ?bare)]"
  let ?g = "Some \<lparr>memoryMap = Some ?m\<rparr>"
  have h1: "getMemoryMap ?g = Some ?m" by (simp add: getMemoryMap_def getContentStorageWindow_def)
  have h2: "distinct (map fst ?m)" by simp
  have h3: "(0::int) \<le> 1" by simp
  have h4: "(1::int) < int (length ?m)" by simp
  have h5: "(''bare'', ?bare) \<in> set ?m" by simp
  have h6: "metadata ?bare = None \<or> (\<exists>md. metadata ?bare = Some md \<and> trackedAt md = None)" by simp
  have h7: "(''new'', ?e 5) \<in> set ?m" by simp
  have h8: "metadata (?e 5) = Some \<lparr>namespace = None, language = None, trackedAt = Some 5\<rparr>" by simp
  have h9: "trackedAt \<lparr>namespace = None, language = None, trackedAt = Some 5\<rparr> = Some 5" by simp
  have h10: "(0::int) < 5" by simp
  have ev: "cleanupMemoryMap 1 ?g = Inr (Some \<lparr>memoryMap = Some [(''late'', ?e 7)]\<rparr>)"
    by (simp add: cleanupMemoryMap_def getMemoryMap_def getContentStorageWindow_def sorted_entries_def
      timestamp_of_def putMemoryMap_def numeral_2_eq_2)
  note t = cleanupMemoryMap_missing_timestamp_first [OF h1 h2 h3 h4 h5 h6 h7 h8 h9 h10]
  from ev t [THEN conjunct1] t [THEN conjunct2, THEN conjunct1] show ?thesis
    by (intro conjI)
qed


section \<open>Properties of flattening\<close>

lemma string_leaves_path_nonempty: "(path, s) \<in> set (string_leaves obj) \<Longrightarrow> path \<noteq> []"
  by (induction obj arbitrary: path s rule: string_leaves.induct) auto

lemma dot_join_Cons: "path \<noteq> [] \<Longrightarrow> dot_join (key # path) = key @ ''.'' @ dot_join path"
  by (cases path) simp_all

lemma flattenTranslations_under_prefix:
  "prefix \<noteq> [] \<Longrightarrow>
   flattenTranslations obj prefix
     = map (\<lambda>(path, s). (prefix @ ''.'' @ dot_join path, s)) (string_leaves obj)"
proof (induction obj prefix rule: flattenTranslations.induct)
  case (3 key props rest prefix)
  have fk: "fullKey prefix key = prefix @ ''.'' @ key" "fullKey prefix key \<noteq> []"
    using "3.prems" by (simp_all add: fullKey_def)
  have "map (\<lambda>(path, s). (fullKey prefix key @ ''.'' @ dot_join path, s)) (string_leaves props)
      = map (\<lambda>(path, s). (prefix @ ''.'' @ dot_join path, s))
          (map (\<lambda>(path, s). (key # path, s)) (string_leaves props))"
    by (auto simp: fk(1) dot_join_Cons dest: string_leaves_path_nonempty)
  with "3.IH"(1) [OF fk(2)] "3.IH"(2) [OF "3.prems"] show ?case by simp
qed (simp_all add: fullKey_def)

text \<open>
  When no empty top-level key holds a nested object, \<^verbatim>\<open>flattenTranslations\<close> is the contract:
  the string leaves in depth-first order, in the order of the keys, each with its dot-joined
  path; numbers, booleans, null, undefined and arrays are passed over.
\<close>

lemma flattenTranslations_top:
  "\<forall>(key, v) \<in> set obj. key = [] \<longrightarrow> (\<forall>props. v \<noteq> JObject props) \<Longrightarrow>
   flattenTranslations obj [] = flatten_spec obj"
proof (induction obj "[] :: string" rule: flattenTranslations.induct)
  case (3 key props rest)
  then have k: "key \<noteq> []" by auto
  have "flattenTranslations props key
      = map (\<lambda>(path, s). (dot_join path, s)) (map (\<lambda>(path, s). (key # path, s)) (string_leaves props))"
    by (auto simp: flattenTranslations_under_prefix [OF k] dot_join_Cons dest: string_leaves_path_nonempty)
  with 3 show ?case by (simp add: flatten_spec_def fullKey_def)
qed (simp_all add: flatten_spec_def fullKey_def)

text \<open>
  Claim C7. At an empty top-level key over a nested object the code leaves the contract: the
  recursive call gets the empty string as prefix and takes it as no prefix, so the leaf at the
  path of the empty key and \<^verbatim>\<open>a\<close> is paired with \<^verbatim>\<open>a\<close>, where the dot-joined path is
  \<^verbatim>\<open>.a\<close>; next to a top-level key \<^verbatim>\<open>a\<close> two leaves get the same key.
\<close>

theorem flattenTranslations_empty_key:
  "flattenTranslations [([], JObject [(''a'', JString ''x'')])] [] = [(''a'', ''x'')]
   \<and> flatten_spec [([], JObject [(''a'', JString ''x'')])] = [(''.a'', ''x'')]
   \<and> flattenTranslations [([], JObject [(''a'', JString ''x'')]), (''a'', JString ''y'')] []
        = [(''a'', ''x''), (''a'', ''y'')]"
  by (simp add: flatten_spec_def fullKey_def)

end
